theory Spec2Isabelle
  imports Main "HOL-Library.Word"
begin

unbundle bit_operations_syntax

section \<open>Go values used by ttlv/registry.go\<close>

type_synonym uint32 = "32 word"

text \<open>
  A Go map is either nil or a table. Reading a nil map behaves like reading an empty one;
  assigning into a nil map panics.
\<close>

type_synonym ('k, 'v) gomap = "('k \<rightharpoonup> 'v) option"

datatype error =
    NilMapAssignment
  | NilPointerDereference
  | ErrInvalidHexString
  | ErrUnregisteredEnumName

text \<open>The comma-ok read \<^verbatim>\<open>v, ok := m[k]\<close>; \<open>z\<close> is the zero value of the element type.\<close>

definition index_ok :: "'v \<Rightarrow> ('k, 'v) gomap \<Rightarrow> 'k \<Rightarrow> 'v \<times> bool" where
  "index_ok z m k =
     (case m of
        None \<Rightarrow> (z, False)
      | Some f \<Rightarrow> (case f k of None \<Rightarrow> (z, False) | Some v \<Rightarrow> (v, True)))"

text \<open>The assignment \<^verbatim>\<open>m[k] = v\<close>.\<close>

definition assign :: "('k, 'v) gomap \<Rightarrow> 'k \<Rightarrow> 'v \<Rightarrow> error + ('k, 'v) gomap" where
  "assign m k v =
     (case m of
        None \<Rightarrow> Inl NilMapAssignment
      | Some f \<Rightarrow> Inr (Some (f(k \<mapsto> v))))"

text \<open>The entries of a Go map as a HOL map (a nil map has none).\<close>

definition tbl :: "('k, 'v) gomap \<Rightarrow> ('k \<rightharpoonup> 'v)" where
  "tbl m = (case m of None \<Rightarrow> Map.empty | Some f \<Rightarrow> f)"

section \<open>NormalizeName\<close>

text \<open>
  \<^verbatim>\<open>func NormalizeName(s string) string { return kmiputil.NormalizeName(s) }\<close>
  The body of \<^verbatim>\<open>kmiputil.NormalizeName\<close> is in another package; it is the parameter
  \<open>norm\<close> of every definition that reaches it.
\<close>

definition NormalizeName :: "(string \<Rightarrow> string) \<Rightarrow> string \<Rightarrow> string" where
  "NormalizeName norm s = norm s"

text \<open>
  Modelled from the spec: \<^verbatim>\<open>kmiputil.NormalizeName\<close>, whose source is missing. The spec's
  data model: the normalized name is the canonical name with whitespace and punctuation
  other than the underscore removed, letters and digits kept. It is used only to run the
  definitions on concrete names.
\<close>

definition word_char :: "char \<Rightarrow> bool" where
  "word_char c =
     (let n = (of_char c :: nat) in
        (65 \<le> n \<and> n \<le> 90) \<or> (97 \<le> n \<and> n \<le> 122) \<or> (48 \<le> n \<and> n \<le> 57) \<or> n = 95)"

definition kmiputil_NormalizeName :: "string \<Rightarrow> string" where
  "kmiputil_NormalizeName s = filter word_char s"

section \<open>Enum\<close>

record Enum =
  valuesToName :: "(uint32, string) gomap"
  valuesToCanonicalName :: "(uint32, string) gomap"
  nameToValue :: "(string, uint32) gomap"
  canonicalNamesToValue :: "(string, uint32) gomap"
  bitMask :: bool

definition NewEnum :: Enum where
  "NewEnum =
     \<lparr>valuesToName = None, valuesToCanonicalName = None, nameToValue = None,
      canonicalNamesToValue = None, bitMask = False\<rparr>"

definition NewBitmask :: Enum where
  "NewBitmask =
     \<lparr>valuesToName = None, valuesToCanonicalName = None, nameToValue = None,
      canonicalNamesToValue = None, bitMask = True\<rparr>"

text \<open>
  The methods have the receiver \<^verbatim>\<open>e *Enum\<close>: \<open>None\<close> is the nil pointer, \<open>Some e\<close> a
  pointer to an Enum whose current contents are \<open>e\<close>. A method that mutates returns the
  new contents. \<^verbatim>\<open>RegisterValue\<close> reads \<^verbatim>\<open>e.valuesToName\<close> at once, so a nil receiver
  panics there.
\<close>

definition RegisterValue ::
  "(string \<Rightarrow> string) \<Rightarrow> uint32 \<Rightarrow> string \<Rightarrow> Enum option \<Rightarrow> error + Enum" where
  "RegisterValue norm v name e =
     (case e of
        None \<Rightarrow> Inl NilPointerDereference
      | Some e0 \<Rightarrow>
          let nn = NormalizeName norm name;
              e1 = (if valuesToName e0 = None
                    then e0\<lparr>valuesToName := Some Map.empty,
                            nameToValue := Some Map.empty,
                            valuesToCanonicalName := Some Map.empty,
                            canonicalNamesToValue := Some Map.empty\<rparr>
                    else e0)
          in (case assign (valuesToName e1) v nn of
               Inl x \<Rightarrow> Inl x
             | Inr m1 \<Rightarrow>
          (case assign (nameToValue e1) nn v of
               Inl x \<Rightarrow> Inl x
             | Inr m2 \<Rightarrow>
          (case assign (valuesToCanonicalName e1) v name of
               Inl x \<Rightarrow> Inl x
             | Inr m3 \<Rightarrow>
          (case assign (canonicalNamesToValue e1) name v of
               Inl x \<Rightarrow> Inl x
             | Inr m4 \<Rightarrow>
                 Inr (e1\<lparr>valuesToName := m1, nameToValue := m2,
                         valuesToCanonicalName := m3,
                         canonicalNamesToValue := m4\<rparr>))))))"

definition Name :: "Enum option \<Rightarrow> uint32 \<Rightarrow> string \<times> bool" where
  "Name e v =
     (case e of
        None \<Rightarrow> ([], False)
      | Some e0 \<Rightarrow> index_ok [] (valuesToName e0) v)"

definition CanonicalName :: "Enum option \<Rightarrow> uint32 \<Rightarrow> string \<times> bool" where
  "CanonicalName e v =
     (case e of
        None \<Rightarrow> ([], False)
      | Some e0 \<Rightarrow> index_ok [] (valuesToCanonicalName e0) v)"

definition Value :: "Enum option \<Rightarrow> string \<Rightarrow> uint32 \<times> bool" where
  "Value e name =
     (case e of
        None \<Rightarrow> (0, False)
      | Some e0 \<Rightarrow>
          (case index_ok 0 (nameToValue e0) name of
             (v, ok) \<Rightarrow>
               if \<not> ok then index_ok 0 (canonicalNamesToValue e0) name else (v, ok)))"

definition Bitmask :: "Enum option \<Rightarrow> bool" where
  "Bitmask e = (case e of None \<Rightarrow> False | Some e0 \<Rightarrow> bitMask e0)"


text \<open>
  \<^verbatim>\<open>for v := range e.valuesToName\<close> visits every key of the map once, in an order the
  runtime picks: \<open>ks\<close> is that order.
\<close>

definition range_order :: "('k, 'v) gomap \<Rightarrow> 'k list \<Rightarrow> bool" where
  "range_order m ks \<longleftrightarrow> distinct ks \<and> set ks = dom (tbl m)"

text \<open>\<^verbatim>\<open>func (p uint32Slice) Less(i, j int) bool { return p[i] < p[j] }\<close>, on the elements.\<close>

definition Less :: "uint32 \<Rightarrow> uint32 \<Rightarrow> bool" where
  "Less a b \<longleftrightarrow> a < b"

text \<open>
  \<^verbatim>\<open>sort.Sort\<close> is the Go standard library. It is modelled by an insertion sort that
  compares elements with the slice's \<^verbatim>\<open>Less\<close> only.
\<close>

fun insert_by :: "('a \<Rightarrow> 'a \<Rightarrow> bool) \<Rightarrow> 'a \<Rightarrow> 'a list \<Rightarrow> 'a list" where
  "insert_by lt x [] = [x]"
| "insert_by lt x (y # ys) =
     (if lt y x then y # insert_by lt x ys else x # y # ys)"

fun sort_Sort :: "('a \<Rightarrow> 'a \<Rightarrow> bool) \<Rightarrow> 'a list \<Rightarrow> 'a list" where
  "sort_Sort lt [] = []"
| "sort_Sort lt (x # xs) = insert_by lt x (sort_Sort lt xs)"

text \<open>\<^verbatim>\<open>Values\<close> reads \<^verbatim>\<open>e.valuesToName\<close> without a nil check on the receiver.\<close>

definition Values :: "uint32 list \<Rightarrow> Enum option \<Rightarrow> error + uint32 list" where
  "Values ks e =
     (case e of
        None \<Rightarrow> Inl NilPointerDereference
      | Some e0 \<Rightarrow>
          let values = fold (\<lambda>v acc. acc @ [v]) ks []
          in Inr (sort_Sort Less values))"

text \<open>A sequence of \<^verbatim>\<open>RegisterValue\<close> calls on one Enum, in order; a panic ends it.\<close>

fun register_calls ::
  "(string \<Rightarrow> string) \<Rightarrow> (uint32 \<times> string) list \<Rightarrow> Enum \<Rightarrow> error + Enum" where
  "register_calls norm [] e = Inr e"
| "register_calls norm ((v, name) # rs) e =
     (case RegisterValue norm v name (Some e) of
        Inl x \<Rightarrow> Inl x
      | Inr e' \<Rightarrow> register_calls norm rs e')"

section \<open>Registry\<close>

text \<open>
  Modelled from the spec: the declarations of \<^verbatim>\<open>Tag\<close> and \<^verbatim>\<open>Type\<close> are not in
  registry.go. The spec's data model: a Tag is a 24-bit unsigned integer with
  \<^verbatim>\<open>TagNone = 0\<close>, a Type an 8-bit one. \<^verbatim>\<open>uint32(t)\<close> is \<open>ucast\<close>.
\<close>

type_synonym Tag = "24 word"
type_synonym Type = "8 word"

definition TagNone :: Tag where
  "TagNone = 0"

text \<open>
  \<^verbatim>\<open>EnumMap\<close> is an interface; the implementation in this file is \<^verbatim>\<open>*Enum\<close>. A value is
  the nil interface, or holds a \<^verbatim>\<open>*Enum\<close>: \<open>None\<close> the nil pointer, \<open>Some a\<close> the address
  of an Enum in the store. Enums registered with a Registry stay shared with the caller,
  who may go on calling \<^verbatim>\<open>RegisterValue\<close> on them.
\<close>

datatype EnumMap = NilEnumMap | EnumPtr "nat option"

type_synonym store = "nat \<Rightarrow> Enum"

text \<open>
  What a function sees of an \<^verbatim>\<open>EnumMap\<close> argument: \<open>None\<close> for the nil interface,
  \<open>Some p\<close> for the receiver \<open>p\<close> its methods are called on.
\<close>

fun deref :: "store \<Rightarrow> EnumMap \<Rightarrow> Enum option option" where
  "deref h NilEnumMap = None"
| "deref h (EnumPtr p) = Some (map_option h p)"

record Registry =
  enums :: "(Tag, EnumMap) gomap"
  tags :: Enum
  types :: Enum

definition RegisterType ::
  "(string \<Rightarrow> string) \<Rightarrow> Type \<Rightarrow> string \<Rightarrow> Registry \<Rightarrow> error + Registry" where
  "RegisterType norm t name r =
     (case RegisterValue norm (ucast t) name (Some (types r)) of
        Inl x \<Rightarrow> Inl x
      | Inr e \<Rightarrow> Inr (r\<lparr>types := e\<rparr>))"

definition RegisterTag ::
  "(string \<Rightarrow> string) \<Rightarrow> Tag \<Rightarrow> string \<Rightarrow> Registry \<Rightarrow> error + Registry" where
  "RegisterTag norm t name r =
     (case RegisterValue norm (ucast t) name (Some (tags r)) of
        Inl x \<Rightarrow> Inl x
      | Inr e \<Rightarrow> Inr (r\<lparr>tags := e\<rparr>))"

definition RegisterEnum :: "Tag \<Rightarrow> EnumMap \<Rightarrow> Registry \<Rightarrow> error + Registry" where
  "RegisterEnum t def r =
     (let r1 = (if enums r = None then r\<lparr>enums := Some Map.empty\<rparr> else r)
      in (case assign (enums r1) t def of
            Inl x \<Rightarrow> Inl x
          | Inr m \<Rightarrow> Inr (r1\<lparr>enums := m\<rparr>)))"

text \<open>\<^verbatim>\<open>r.enums[t]\<close> is the nil interface when \<open>t\<close> is not a key.\<close>

definition EnumForTag :: "Registry \<Rightarrow> Tag \<Rightarrow> EnumMap" where
  "EnumForTag r t =
     (if enums r = None then NilEnumMap
      else fst (index_ok NilEnumMap (enums r) t))"

definition IsBitmask :: "store \<Rightarrow> Registry \<Rightarrow> Tag \<Rightarrow> bool" where
  "IsBitmask h r t =
     (case EnumForTag r t of
        EnumPtr p \<Rightarrow> Bitmask (map_option h p)
      | NilEnumMap \<Rightarrow> False)"

definition IsEnum :: "store \<Rightarrow> Registry \<Rightarrow> Tag \<Rightarrow> bool" where
  "IsEnum h r t =
     (case EnumForTag r t of
        EnumPtr p \<Rightarrow> \<not> Bitmask (map_option h p)
      | NilEnumMap \<Rightarrow> False)"

text \<open>\<^verbatim>\<open>Tags\<close> and \<^verbatim>\<open>Types\<close> return pointers to the Registry's own two Enums.\<close>

definition Tags :: "Registry \<Rightarrow> Enum option option" where
  "Tags r = Some (Some (tags r))"

definition Types :: "Registry \<Rightarrow> Enum option option" where
  "Types r = Some (Some (types r))"


section \<open>Formatting and parsing of tags and enum values\<close>

text \<open>Hexadecimal text: digits of either case are read, lower-case digits are written.\<close>

definition hex_digit :: "char \<Rightarrow> nat option" where
  "hex_digit c =
     (let n = (of_char c :: nat) in
        if 48 \<le> n \<and> n \<le> 57 then Some (n - 48)
        else if 97 \<le> n \<and> n \<le> 102 then Some (n - 87)
        else if 65 \<le> n \<and> n \<le> 70 then Some (n - 55)
        else None)"

fun hex_value :: "nat \<Rightarrow> string \<Rightarrow> nat option" where
  "hex_value acc [] = Some acc"
| "hex_value acc (c # cs) =
     (case hex_digit c of
        None \<Rightarrow> None
      | Some d \<Rightarrow> hex_value (16 * acc + d) cs)"

definition hex_char :: "nat \<Rightarrow> char" where
  "hex_char d = ''0123456789abcdef'' ! d"

fun hex_digits :: "nat \<Rightarrow> nat \<Rightarrow> string" where
  "hex_digits 0 k = []"
| "hex_digits (Suc n) k = hex_digits n (k div 16) @ [hex_char (k mod 16)]"

definition has_0x :: "string \<Rightarrow> bool" where
  "has_0x s \<longleftrightarrow> take 2 s = ''0x''"

text \<open>The number written by \<open>s\<close> when \<open>s\<close> is "0x" followed by exactly \<open>n\<close> hex digits.\<close>

definition hex_form :: "nat \<Rightarrow> string \<Rightarrow> nat option" where
  "hex_form n s =
     (if has_0x s \<and> length (drop 2 s) = n then hex_value 0 (drop 2 s) else None)"

text \<open>
  Modelled from the spec: the package function \<^verbatim>\<open>FormatTag(uint32, EnumMap)\<close>, which
  \<^verbatim>\<open>Registry.FormatTag\<close> calls and whose source is missing. The spec, 4.A:
  FormatTag(Tag) gives the canonical name, else "0xHHHHHH". \<^verbatim>\<open>Registry.FormatTag\<close>
  passes \<^verbatim>\<open>uint32(t)\<close>, which has six hex digits.
\<close>

definition FormatTag :: "uint32 \<Rightarrow> Enum option option \<Rightarrow> string" where
  "FormatTag v enumMap =
     (case enumMap of
        None \<Rightarrow> ''0x'' @ hex_digits 6 (unat v)
      | Some e \<Rightarrow>
          (case CanonicalName e v of
             (s, ok) \<Rightarrow> if ok then s else ''0x'' @ hex_digits 6 (unat v)))"

text \<open>
  Modelled from the spec: the package function \<^verbatim>\<open>ParseTag(string, EnumMap)\<close>, which
  \<^verbatim>\<open>Registry.ParseTag\<close> calls and whose source is missing. The spec, 4.A: ParseTag
  accepts the canonical name, the normalized name, or "0x" and 6 hex digits; it fails with
  MalformedHex if the hex form has the wrong length or a non-hex digit; it returns TagNone
  for unknown strings that are not hex. The comment on \<^verbatim>\<open>Registry.ParseTag\<close> says the
  same: "returns TagNone if not found. returns error if s is a malformed hex string, or a
  hex string of incorrect length". \<^verbatim>\<open>Enum.Value\<close> is the lookup that accepts both names.
\<close>

definition ParseTag :: "string \<Rightarrow> Enum option option \<Rightarrow> error + Tag" where
  "ParseTag s enumMap =
     (if has_0x s then
        (case hex_form 6 s of
           None \<Rightarrow> Inl ErrInvalidHexString
         | Some n \<Rightarrow> Inr (of_nat n))
      else
        (case enumMap of
           None \<Rightarrow> Inr TagNone
         | Some e \<Rightarrow>
             (case Value e s of
                (v, ok) \<Rightarrow> if ok then Inr (ucast v) else Inr TagNone)))"

text \<open>The text between the separators, as \<^verbatim>\<open>strings.Split\<close> gives it.\<close>

fun split_on :: "char \<Rightarrow> string \<Rightarrow> string list" where
  "split_on sep [] = [[]]"
| "split_on sep (c # cs) =
     (if c = sep then [] # split_on sep cs
      else (case split_on sep cs of
              [] \<Rightarrow> [[c]]
            | w # ws \<Rightarrow> (c # w) # ws))"

text \<open>
  Modelled from the spec: the package function \<^verbatim>\<open>ParseEnum(string, EnumMap)\<close>, which
  \<^verbatim>\<open>Registry.ParseEnum\<close> calls and whose source is missing. The spec, 4.A: FormatEnum
  writes a bitmask as "Name1|Name2|0x00000004"; ParseEnum is the inverse, and unknown names
  in bitmask form fail with UnregisteredEnumName unless given as hex. A component is given
  as hex when it is "0x" and 8 hex digits; every other component is looked up as a name.
  The spec does not say what the form of a plain enum does with a name it does not know:
  that branch is the parameter \<open>enum_form\<close>.
\<close>

definition parse_mask_component :: "Enum option \<Rightarrow> string \<Rightarrow> error + uint32" where
  "parse_mask_component e c =
     (case hex_form 8 c of
        Some n \<Rightarrow> Inr (of_nat n)
      | None \<Rightarrow>
          (case Value e c of
             (v, ok) \<Rightarrow> if ok then Inr v else Inl ErrUnregisteredEnumName))"

fun parse_mask :: "Enum option \<Rightarrow> string list \<Rightarrow> uint32 \<Rightarrow> error + uint32" where
  "parse_mask e [] acc = Inr acc"
| "parse_mask e (c # cs) acc =
     (case parse_mask_component e c of
        Inl x \<Rightarrow> Inl x
      | Inr v \<Rightarrow> parse_mask e cs (acc OR v))"

definition ParseEnum ::
  "(string \<Rightarrow> Enum option option \<Rightarrow> error + uint32) \<Rightarrow>
   string \<Rightarrow> Enum option option \<Rightarrow> error + uint32" where
  "ParseEnum enum_form s enumMap =
     (case enumMap of
        None \<Rightarrow> enum_form s enumMap
      | Some e \<Rightarrow>
          if Bitmask e then parse_mask e (split_on CHR ''|'' s) 0
          else enum_form s enumMap)"

text \<open>The methods of Registry that call them.\<close>

definition Registry_FormatTag :: "Registry \<Rightarrow> Tag \<Rightarrow> string" where
  "Registry_FormatTag r t = FormatTag (ucast t) (Some (Some (tags r)))"

definition Registry_ParseTag :: "Registry \<Rightarrow> string \<Rightarrow> error + Tag" where
  "Registry_ParseTag r s = ParseTag s (Some (Some (tags r)))"

definition Registry_ParseEnum ::
  "(string \<Rightarrow> Enum option option \<Rightarrow> error + uint32) \<Rightarrow>
   store \<Rightarrow> Registry \<Rightarrow> Tag \<Rightarrow> string \<Rightarrow> error + uint32" where
  "Registry_ParseEnum enum_form h r t s =
     ParseEnum enum_form s (deref h (EnumForTag r t))"

section \<open>Sequences of registration calls\<close>

text \<open>A sequence of \<^verbatim>\<open>RegisterTag\<close> calls on one Registry, in order.\<close>

fun register_tags ::
  "(string \<Rightarrow> string) \<Rightarrow> (Tag \<times> string) list \<Rightarrow> Registry \<Rightarrow> error + Registry" where
  "register_tags norm [] r = Inr r"
| "register_tags norm ((t, name) # rs) r =
     (case RegisterTag norm t name r of
        Inl x \<Rightarrow> Inl x
      | Inr r' \<Rightarrow> register_tags norm rs r')"

text \<open>
  The four registration calls of the claims, on a Registry and on the Enums of the store;
  \<^verbatim>\<open>RegisterValue\<close> is called through a pointer, the address of its Enum.
\<close>

datatype Call =
    Call_RegisterTag Tag string
  | Call_RegisterType Type string
  | Call_RegisterEnum Tag EnumMap
  | Call_RegisterValue nat uint32 string

fun exec ::
  "(string \<Rightarrow> string) \<Rightarrow> Call \<Rightarrow> store \<times> Registry \<Rightarrow> error + store \<times> Registry" where
  "exec norm (Call_RegisterTag t name) (h, r) =
     (case RegisterTag norm t name r of Inl x \<Rightarrow> Inl x | Inr r' \<Rightarrow> Inr (h, r'))"
| "exec norm (Call_RegisterType t name) (h, r) =
     (case RegisterType norm t name r of Inl x \<Rightarrow> Inl x | Inr r' \<Rightarrow> Inr (h, r'))"
| "exec norm (Call_RegisterEnum t def) (h, r) =
     (case RegisterEnum t def r of Inl x \<Rightarrow> Inl x | Inr r' \<Rightarrow> Inr (h, r'))"
| "exec norm (Call_RegisterValue a v name) (h, r) =
     (case RegisterValue norm v name (Some (h a)) of
        Inl x \<Rightarrow> Inl x
      | Inr e' \<Rightarrow> Inr (h(a := e'), r))"

fun run ::
  "(string \<Rightarrow> string) \<Rightarrow> Call list \<Rightarrow> store \<times> Registry \<Rightarrow> error + store \<times> Registry" where
  "run norm [] s = Inr s"
| "run norm (c # cs) s =
     (case exec norm c s of Inl x \<Rightarrow> Inl x | Inr s' \<Rightarrow> run norm cs s')"

text \<open>
  The fields of Enum are unexported and \<^verbatim>\<open>RegisterValue\<close> is their only writer, so the
  four maps of an Enum are nil together: the Enums a program can hold.
\<close>

definition enum_wf :: "Enum \<Rightarrow> bool" where
  "enum_wf e \<longleftrightarrow>
     (valuesToName e = None \<and> nameToValue e = None \<and>
      valuesToCanonicalName e = None \<and> canonicalNamesToValue e = None) \<or>
     (valuesToName e \<noteq> None \<and> nameToValue e \<noteq> None \<and>
      valuesToCanonicalName e \<noteq> None \<and> canonicalNamesToValue e \<noteq> None)"

definition state_wf :: "store \<times> Registry \<Rightarrow> bool" where
  "state_wf s \<longleftrightarrow>
     (\<forall>a. enum_wf (fst s a)) \<and> enum_wf (tags (snd s)) \<and> enum_wf (types (snd s))"

text \<open>The zero Registry, as \<^verbatim>\<open>var DefaultRegistry Registry\<close> declares it.\<close>

definition zero_Registry :: Registry where
  "zero_Registry = \<lparr>enums = None, tags = NewEnum, types = NewEnum\<rparr>"

text \<open>What a lookup returns after a sequence of \<^verbatim>\<open>RegisterValue\<close> calls on a new Enum.\<close>

definition value_after ::
  "(string \<Rightarrow> string) \<Rightarrow> (uint32 \<times> string) list \<Rightarrow> string \<Rightarrow> error + uint32 \<times> bool" where
  "value_after norm regs name =
     (case register_calls norm regs NewEnum of
        Inl x \<Rightarrow> Inl x
      | Inr e \<Rightarrow> Inr (Value (Some e) name))"

text \<open>
  A tag formatted and parsed back after a sequence of \<^verbatim>\<open>RegisterTag\<close> calls on the
  zero Registry.
\<close>

definition parse_format_after ::
  "(string \<Rightarrow> string) \<Rightarrow> (Tag \<times> string) list \<Rightarrow> Tag \<Rightarrow> error + Tag" where
  "parse_format_after norm regs t =
     (case register_tags norm regs zero_Registry of
        Inl x \<Rightarrow> Inl x
      | Inr r \<Rightarrow> Registry_ParseTag r (Registry_FormatTag r t))"

section \<open>What RegisterValue does to the four maps\<close>

lemma tbl_simps: "tbl None = Map.empty" "tbl (Some f) = f"
  by (simp_all add: tbl_def)

lemma RegisterValue_effect:
  assumes "enum_wf e"
  shows "\<exists>e'. RegisterValue norm v n (Some e) = Inr e' \<and> enum_wf e' \<and>
           valuesToName e' = Some ((tbl (valuesToName e))(v \<mapsto> norm n)) \<and>
           nameToValue e' = Some ((tbl (nameToValue e))(norm n \<mapsto> v)) \<and>
           valuesToCanonicalName e' = Some ((tbl (valuesToCanonicalName e))(v \<mapsto> n)) \<and>
           canonicalNamesToValue e' = Some ((tbl (canonicalNamesToValue e))(n \<mapsto> v)) \<and>
           bitMask e' = bitMask e"
  using assms
  by (auto simp: enum_wf_def RegisterValue_def NormalizeName_def assign_def tbl_def Let_def)

lemma RegisterValue_stored:
  "RegisterValue norm v n (Some e) = Inr e' \<Longrightarrow>
   tbl (valuesToName e') v = Some (NormalizeName norm n) \<and>
   tbl (valuesToCanonicalName e') v = Some n"
  by (auto simp: RegisterValue_def assign_def tbl_def Let_def
        split: option.splits if_splits)

lemma register_calls_effect:
  "enum_wf e \<Longrightarrow>
   \<exists>e'. register_calls norm regs e = Inr e' \<and> enum_wf e' \<and>
     tbl (valuesToName e') = tbl (valuesToName e) ++ map_of (rev (map (\<lambda>(v, n). (v, norm n)) regs)) \<and>
     tbl (nameToValue e') = tbl (nameToValue e) ++ map_of (rev (map (\<lambda>(v, n). (norm n, v)) regs)) \<and>
     tbl (valuesToCanonicalName e') = tbl (valuesToCanonicalName e) ++ map_of (rev regs) \<and>
     tbl (canonicalNamesToValue e') = tbl (canonicalNamesToValue e) ++ map_of (rev (map (\<lambda>(v, n). (n, v)) regs)) \<and>
     bitMask e' = bitMask e"
proof (induction regs arbitrary: e)
  case Nil
  then show ?case by simp
next
  case (Cons p regs)
  obtain v n where p: "p = (v, n)" by (cases p)
  from RegisterValue_effect [OF Cons.prems, of norm v n]
  obtain e1 where e1: "RegisterValue norm v n (Some e) = Inr e1" "enum_wf e1"
    "valuesToName e1 = Some ((tbl (valuesToName e))(v \<mapsto> norm n))"
    "nameToValue e1 = Some ((tbl (nameToValue e))(norm n \<mapsto> v))"
    "valuesToCanonicalName e1 = Some ((tbl (valuesToCanonicalName e))(v \<mapsto> n))"
    "canonicalNamesToValue e1 = Some ((tbl (canonicalNamesToValue e))(n \<mapsto> v))"
    "bitMask e1 = bitMask e"
    by blast
  from Cons.IH [OF e1(2)] obtain e' where e': "register_calls norm regs e1 = Inr e'" "enum_wf e'"
     "tbl (valuesToName e') = tbl (valuesToName e1) ++ map_of (rev (map (\<lambda>(v, n). (v, norm n)) regs))"
     "tbl (nameToValue e') = tbl (nameToValue e1) ++ map_of (rev (map (\<lambda>(v, n). (norm n, v)) regs))"
     "tbl (valuesToCanonicalName e') = tbl (valuesToCanonicalName e1) ++ map_of (rev regs)"
     "tbl (canonicalNamesToValue e') = tbl (canonicalNamesToValue e1) ++ map_of (rev (map (\<lambda>(v, n). (n, v)) regs))"
     "bitMask e' = bitMask e1"
    by blast
  have upd: "\<And>(m :: 'x \<rightharpoonup> 'y) k x ys. m(k \<mapsto> x) ++ map_of (rev ys) = m ++ map_of (rev ((k, x) # ys))"
    by (rule ext) (simp add: map_add_def split: option.splits)
  have c0: "register_calls norm (p # regs) e = Inr e'"
    using e1(1) e'(1) by (simp add: p)
  have c1: "tbl (valuesToName e') =
      tbl (valuesToName e) ++ map_of (rev (map (\<lambda>(v, n). (v, norm n)) (p # regs)))"
    unfolding e'(3) e1(3) tbl_simps upd by (simp add: p)
  have c2: "tbl (nameToValue e') =
      tbl (nameToValue e) ++ map_of (rev (map (\<lambda>(v, n). (norm n, v)) (p # regs)))"
    unfolding e'(4) e1(4) tbl_simps upd by (simp add: p)
  have c3: "tbl (valuesToCanonicalName e') =
      tbl (valuesToCanonicalName e) ++ map_of (rev (p # regs))"
    unfolding e'(5) e1(5) tbl_simps upd by (simp add: p)
  have c4: "tbl (canonicalNamesToValue e') =
      tbl (canonicalNamesToValue e) ++ map_of (rev (map (\<lambda>(v, n). (n, v)) (p # regs)))"
    unfolding e'(6) e1(6) tbl_simps upd by (simp add: p)
  have c5: "bitMask e' = bitMask e"
    using e'(7) e1(7) by simp
  from c0 e'(2) c1 c2 c3 c4 c5 show ?case by blast
qed


lemma fresh_enum_calls:
  assumes "e0 = NewEnum \<or> e0 = NewBitmask"
  shows "\<exists>e. register_calls norm regs e0 = Inr e \<and> enum_wf e \<and>
     tbl (valuesToName e) = map_of (rev (map (\<lambda>(v, n). (v, norm n)) regs)) \<and>
     tbl (nameToValue e) = map_of (rev (map (\<lambda>(v, n). (norm n, v)) regs)) \<and>
     tbl (valuesToCanonicalName e) = map_of (rev regs) \<and>
     tbl (canonicalNamesToValue e) = map_of (rev (map (\<lambda>(v, n). (n, v)) regs)) \<and>
     bitMask e = bitMask e0"
proof -
  have wf: "enum_wf e0"
    using assms by (auto simp: enum_wf_def NewEnum_def NewBitmask_def)
  have empty: "tbl (valuesToName e0) = Map.empty" "tbl (nameToValue e0) = Map.empty"
    "tbl (valuesToCanonicalName e0) = Map.empty" "tbl (canonicalNamesToValue e0) = Map.empty"
    using assms by (auto simp: tbl_def NewEnum_def NewBitmask_def)
  from register_calls_effect [OF wf, of norm regs] show ?thesis
    unfolding empty by simp
qed

lemma index_ok_tbl:
  "index_ok z m k = (case tbl m k of None \<Rightarrow> (z, False) | Some v \<Rightarrow> (v, True))"
  by (simp add: index_ok_def tbl_def split: option.splits)

lemma map_of_rev_norm:
  "map_of (rev (map (\<lambda>(v, n). (v, f n)) regs)) = map_option f \<circ> map_of (rev regs)"
  unfolding rev_map by (rule map_of_map)

lemma map_of_rev_dom: "(k, x) \<in> set xs \<Longrightarrow> \<exists>y. map_of (rev xs) k = Some y"
  by (metis domD dom_map_of_conv_image_fst fst_conv image_eqI set_rev)

section \<open>Names stored by RegisterValue\<close>

text \<open>
  Claim C2. An Enum starts as \<^verbatim>\<open>NewEnum()\<close> or \<^verbatim>\<open>NewBitmask()\<close> and receives any
  sequence of \<^verbatim>\<open>RegisterValue\<close> calls, with any normalizer. No call panics; every
  registered value has a canonical name; and whenever \<^verbatim>\<open>CanonicalName(v)\<close> finds a name
  \<open>c\<close>, \<^verbatim>\<open>Name(v)\<close> finds exactly \<^verbatim>\<open>NormalizeName(c)\<close>.
\<close>

theorem C2_name_normalization:
  assumes "e0 = NewEnum \<or> e0 = NewBitmask"
  shows "\<exists>e. register_calls norm regs e0 = Inr e \<and>
           (\<forall>(v, n) \<in> set regs. snd (CanonicalName (Some e) v)) \<and>
           (\<forall>v c. CanonicalName (Some e) v = (c, True) \<longrightarrow>
                  Name (Some e) v = (NormalizeName norm c, True))"
proof -
  from fresh_enum_calls [OF assms, of norm regs]
  obtain e where e: "register_calls norm regs e0 = Inr e"
    "tbl (valuesToName e) = map_of (rev (map (\<lambda>(v, n). (v, norm n)) regs))"
    "tbl (valuesToCanonicalName e) = map_of (rev regs)"
    by blast
  have a: "\<forall>(v, n) \<in> set regs. snd (CanonicalName (Some e) v)"
  proof (clarify)
    fix v n assume "(v, n) \<in> set regs"
    then obtain y where "map_of (rev regs) v = Some y"
      using map_of_rev_dom by fastforce
    then show "snd (CanonicalName (Some e) v)"
      by (simp add: CanonicalName_def index_ok_tbl e(3))
  qed
  have b: "\<forall>v c. CanonicalName (Some e) v = (c, True) \<longrightarrow>
                  Name (Some e) v = (NormalizeName norm c, True)"
    by (auto simp: CanonicalName_def Name_def index_ok_tbl e(2) e(3) map_of_rev_norm
          NormalizeName_def split: option.splits)
  from e(1) a b show ?thesis by blast
qed

theorem C2_name_normalization_witness:
  "\<exists>e. register_calls kmiputil_NormalizeName [(8, ''Byte String'')] NewEnum = Inr e \<and>
       CanonicalName (Some e) 8 = (''Byte String'', True) \<and>
       Name (Some e) 8 = (''ByteString'', True)"
proof -
  have start: "NewEnum = NewEnum \<or> NewEnum = NewBitmask" by simp
  from C2_name_normalization [OF start, of kmiputil_NormalizeName "[(8, ''Byte String'')]"]
  obtain e where e: "register_calls kmiputil_NormalizeName [(8, ''Byte String'')] NewEnum = Inr e"
    and imp: "\<And>v c. CanonicalName (Some e) v = (c, True) \<Longrightarrow>
                Name (Some e) v = (NormalizeName kmiputil_NormalizeName c, True)"
    by blast
  have c: "CanonicalName (Some e) 8 = (''Byte String'', True)"
    using e
    by (auto simp: RegisterValue_def NewEnum_def assign_def CanonicalName_def index_ok_def
          Let_def)
  from imp [OF c] have "Name (Some e) 8 = (''ByteString'', True)"
    by (simp add: NormalizeName_def kmiputil_NormalizeName_def word_char_def)
  with e c show ?thesis by blast
qed

section \<open>Registering twice\<close>

lemma RegisterEnum_effect:
  "RegisterEnum t d r = Inr (r\<lparr>enums := Some ((tbl (enums r))(t \<mapsto> d))\<rparr>)"
  by (cases "enums r") (simp_all add: RegisterEnum_def assign_def tbl_def)

lemma EnumForTag_tbl:
  "EnumForTag r t = (case tbl (enums r) t of None \<Rightarrow> NilEnumMap | Some m \<Rightarrow> m)"
  by (simp add: EnumForTag_def index_ok_def tbl_def split: option.splits)

text \<open>
  Claim C7. After \<^verbatim>\<open>RegisterEnum(t, m1)\<close> and then \<^verbatim>\<open>RegisterEnum(t, m2)\<close> on any
  Registry, \<^verbatim>\<open>EnumForTag(t)\<close> is \<open>m2\<close>. After \<^verbatim>\<open>RegisterValue(v, n1)\<close> and then
  \<^verbatim>\<open>RegisterValue(v, n2)\<close> on any Enum, \<^verbatim>\<open>Name(v)\<close> is \<^verbatim>\<open>NormalizeName(n2)\<close> and
  \<^verbatim>\<open>CanonicalName(v)\<close> is \<open>n2\<close>; and on any Enum a program can hold, neither call
  panics.
\<close>

theorem C7_last_writer_wins:
  "(\<exists>r1 r2. RegisterEnum t m1 r = Inr r1 \<and> RegisterEnum t m2 r1 = Inr r2 \<and>
            EnumForTag r2 t = m2) \<and>
   (\<forall>e1 e2. RegisterValue norm v n1 (Some e) = Inr e1 \<and>
            RegisterValue norm v n2 (Some e1) = Inr e2 \<longrightarrow>
            Name (Some e2) v = (NormalizeName norm n2, True) \<and>
            CanonicalName (Some e2) v = (n2, True)) \<and>
   (enum_wf e \<longrightarrow>
     (\<exists>e1 e2. RegisterValue norm v n1 (Some e) = Inr e1 \<and>
              RegisterValue norm v n2 (Some e1) = Inr e2))"
proof (intro conjI)
  show "\<exists>r1 r2. RegisterEnum t m1 r = Inr r1 \<and> RegisterEnum t m2 r1 = Inr r2 \<and>
            EnumForTag r2 t = m2"
    by (simp add: RegisterEnum_effect EnumForTag_tbl tbl_simps)
next
  show "\<forall>e1 e2. RegisterValue norm v n1 (Some e) = Inr e1 \<and>
            RegisterValue norm v n2 (Some e1) = Inr e2 \<longrightarrow>
            Name (Some e2) v = (NormalizeName norm n2, True) \<and>
            CanonicalName (Some e2) v = (n2, True)"
  proof (intro allI impI, elim conjE)
    fix e1 e2
    assume "RegisterValue norm v n2 (Some e1) = Inr e2"
    from RegisterValue_stored [OF this]
    show "Name (Some e2) v = (NormalizeName norm n2, True) \<and>
          CanonicalName (Some e2) v = (n2, True)"
      by (simp add: Name_def CanonicalName_def index_ok_tbl)
  qed
next
  show "enum_wf e \<longrightarrow>
     (\<exists>e1 e2. RegisterValue norm v n1 (Some e) = Inr e1 \<and>
              RegisterValue norm v n2 (Some e1) = Inr e2)"
  proof
    assume wf: "enum_wf e"
    from RegisterValue_effect [OF wf, of norm v n1]
    obtain e1 where e1: "RegisterValue norm v n1 (Some e) = Inr e1" "enum_wf e1" by blast
    from RegisterValue_effect [OF e1(2), of norm v n2]
    obtain e2 where e2: "RegisterValue norm v n2 (Some e1) = Inr e2" by blast
    from e1(1) e2 show "\<exists>e1 e2. RegisterValue norm v n1 (Some e) = Inr e1 \<and>
              RegisterValue norm v n2 (Some e1) = Inr e2"
      by blast
  qed
qed

theorem C7_last_writer_wins_witness:
  "enum_wf NewBitmask \<and>
   (\<exists>e1 e2. RegisterValue kmiputil_NormalizeName 4 ''Sign'' (Some NewBitmask) = Inr e1 \<and>
      RegisterValue kmiputil_NormalizeName 4 ''Wrap Key'' (Some e1) = Inr e2 \<and>
      Name (Some e2) 4 = (''WrapKey'', True) \<and>
      CanonicalName (Some e2) 4 = (''Wrap Key'', True))"
proof -
  have wf: "enum_wf NewBitmask"
    by (simp add: enum_wf_def NewBitmask_def)
  have n: "NormalizeName kmiputil_NormalizeName ''Wrap Key'' = ''WrapKey''"
    by (simp add: NormalizeName_def kmiputil_NormalizeName_def word_char_def)
  from C7_last_writer_wins [where e = NewBitmask and norm = kmiputil_NormalizeName
      and v = 4 and ?n1.0 = "''Sign''" and ?n2.0 = "''Wrap Key''"] wf
  show ?thesis unfolding n by blast
qed

section \<open>Reads on nil and empty receivers\<close>

text \<open>
  The four methods that test \<^verbatim>\<open>e == nil\<close>: on a nil \<^verbatim>\<open>*Enum\<close>, \<^verbatim>\<open>Name\<close> and
  \<^verbatim>\<open>CanonicalName\<close> return the empty string and false, \<^verbatim>\<open>Value\<close> returns 0 and
  false, \<^verbatim>\<open>Bitmask\<close> returns false. On a Registry with no registered enums (a nil or an
  empty \<^verbatim>\<open>enums\<close> map), for every tag, \<^verbatim>\<open>EnumForTag\<close> returns the nil interface and
  \<^verbatim>\<open>IsBitmask\<close> and \<^verbatim>\<open>IsEnum\<close> return false.
\<close>

lemma guarded_reads_total:
  "Name None v = ([], False) \<and> CanonicalName None v = ([], False) \<and>
   Value None s = (0, False) \<and> Bitmask None = False \<and>
   (tbl (enums r) = Map.empty \<longrightarrow>
      EnumForTag r t = NilEnumMap \<and> \<not> IsBitmask h r t \<and> \<not> IsEnum h r t)"
  by (auto simp: Name_def CanonicalName_def Value_def Bitmask_def EnumForTag_def
        IsBitmask_def IsEnum_def index_ok_def tbl_def split: option.splits)

lemma guarded_reads_zero_Registry:
  "tbl (enums zero_Registry) = Map.empty \<and>
   EnumForTag zero_Registry 0x420028 = NilEnumMap \<and>
   \<not> IsBitmask (\<lambda>a. NewEnum) zero_Registry 0x420028 \<and>
   \<not> IsEnum (\<lambda>a. NewEnum) zero_Registry 0x420028"
proof -
  have empty: "tbl (enums zero_Registry) = Map.empty"
    by (simp add: tbl_def zero_Registry_def)
  from guarded_reads_total [where r = zero_Registry and t = "0x420028" and h = "\<lambda>a. NewEnum"]
    empty
  show ?thesis by blast
qed

text \<open>
  Claim C8 says that all read operations are total on nil receivers. \<^verbatim>\<open>Values\<close> is a
  read operation of \<^verbatim>\<open>*Enum\<close> too, and it is the one that does not test \<^verbatim>\<open>e == nil\<close>
  before it reads \<^verbatim>\<open>e.valuesToName\<close>: on the nil \<^verbatim>\<open>*Enum\<close> on which \<^verbatim>\<open>Name\<close>,
  \<^verbatim>\<open>CanonicalName\<close>, \<^verbatim>\<open>Value\<close> and \<^verbatim>\<open>Bitmask\<close> return their zero results,
  \<^verbatim>\<open>Values\<close> panics with a nil pointer dereference.
\<close>

theorem C8_values_nil_receiver:
  "Values [] None = Inl NilPointerDereference \<and>
   Name None 1 = ([], False) \<and> CanonicalName None 1 = ([], False) \<and>
   Value None ''A'' = (0, False) \<and> Bitmask None = False"
  by (simp add: Values_def Name_def CanonicalName_def Value_def Bitmask_def)

section \<open>Values\<close>

lemma fold_snoc: "fold (\<lambda>v acc. acc @ [v]) ks a = a @ ks"
  by (induction ks arbitrary: a) simp_all

lemma set_insert_by: "set (insert_by lt x xs) = insert x (set xs)"
  by (induction xs) auto

lemma set_sort_Sort: "set (sort_Sort lt xs) = set xs"
  by (induction xs) (simp_all add: set_insert_by)

lemma strict_insert_by:
  "sorted_wrt (<) xs \<Longrightarrow> x \<notin> set xs \<Longrightarrow> sorted_wrt (<) (insert_by Less (x :: uint32) xs)"
  by (induction xs) (auto simp: set_insert_by Less_def)

lemma strict_sort_Sort:
  "distinct xs \<Longrightarrow> sorted_wrt (<) (sort_Sort Less (xs :: uint32 list))"
  by (induction xs) (simp_all add: strict_insert_by set_sort_Sort)

lemma strict_sorted_distinct: "sorted_wrt (<) (xs :: uint32 list) \<Longrightarrow> distinct xs"
  by (induction xs) auto

lemma valuesToName_dom:
  "dom (map_of (rev (map (\<lambda>(v, n). (v, f n)) regs))) = fst ` set regs"
  by (force simp: dom_map_of_conv_image_fst)

text \<open>
  Claim C9. An Enum starts as \<^verbatim>\<open>NewEnum()\<close> or \<^verbatim>\<open>NewBitmask()\<close> and receives any
  sequence of \<^verbatim>\<open>RegisterValue\<close> calls. Whatever order the runtime ranges over the map
  in, \<^verbatim>\<open>Values()\<close> returns a list whose elements are exactly the values passed to
  \<^verbatim>\<open>RegisterValue\<close>, without duplicates, in strictly increasing numeric order.
\<close>

theorem C9_values_sorted:
  assumes "e0 = NewEnum \<or> e0 = NewBitmask"
  shows "\<exists>e. register_calls norm regs e0 = Inr e \<and>
           (\<exists>ks. range_order (valuesToName e) ks) \<and>
           (\<forall>ks. range_order (valuesToName e) ks \<longrightarrow>
              (\<exists>vs. Values ks (Some e) = Inr vs \<and> set vs = fst ` set regs \<and>
                    distinct vs \<and> sorted_wrt (\<lambda>a b. unat a < unat b) vs))"
proof -
  from fresh_enum_calls [OF assms, of norm regs]
  obtain e where e: "register_calls norm regs e0 = Inr e"
    "tbl (valuesToName e) = map_of (rev (map (\<lambda>(v, n). (v, norm n)) regs))"
    by blast
  have d: "dom (tbl (valuesToName e)) = fst ` set regs"
    unfolding e(2) by (rule valuesToName_dom)
  have "\<exists>ks0. set ks0 = fst ` set regs \<and> distinct ks0"
    by (rule finite_distinct_list) simp
  then obtain ks0 where "set ks0 = fst ` set regs" "distinct ks0"
    by (elim exE conjE)
  then have "range_order (valuesToName e) ks0"
    unfolding range_order_def d by simp
  then have ex: "\<exists>ks. range_order (valuesToName e) ks" ..
  have all: "\<forall>ks. range_order (valuesToName e) ks \<longrightarrow>
              (\<exists>vs. Values ks (Some e) = Inr vs \<and> set vs = fst ` set regs \<and>
                    distinct vs \<and> sorted_wrt (\<lambda>a b. unat a < unat b) vs)"
  proof (intro allI impI)
    fix ks assume "range_order (valuesToName e) ks"
    then have ks: "distinct ks" "set ks = fst ` set regs"
      unfolding range_order_def d by simp_all
    have v: "Values ks (Some e) = Inr (sort_Sort Less ks)"
      by (simp add: Values_def fold_snoc)
    have s: "sorted_wrt (<) (sort_Sort Less ks)"
      using ks(1) by (rule strict_sort_Sort)
    have "(<) = (\<lambda>a b :: uint32. unat a < unat b)"
      by (intro ext) (rule word_less_nat_alt)
    with s have s': "sorted_wrt (\<lambda>a b. unat a < unat b) (sort_Sort Less ks)"
      by simp
    from v s' strict_sorted_distinct [OF s] ks(2)
    show "\<exists>vs. Values ks (Some e) = Inr vs \<and> set vs = fst ` set regs \<and>
                    distinct vs \<and> sorted_wrt (\<lambda>a b. unat a < unat b) vs"
      by (simp add: set_sort_Sort)
  qed
  show ?thesis
    by (rule exI [of _ e]) (intro conjI e(1) ex all)
qed

theorem C9_values_sorted_witness:
  "\<exists>e. register_calls kmiputil_NormalizeName [(3, ''C''), (1, ''A''), (3, ''B'')] NewEnum = Inr e \<and>
       range_order (valuesToName e) [3, 1] \<and>
       Values [3, 1] (Some e) = Inr [1, 3]"
proof -
  have start: "NewEnum = NewEnum \<or> NewEnum = NewBitmask" by simp
  from C9_values_sorted [OF start, of kmiputil_NormalizeName "[(3, ''C''), (1, ''A''), (3, ''B'')]"]
  obtain e where e: "register_calls kmiputil_NormalizeName [(3, ''C''), (1, ''A''), (3, ''B'')] NewEnum = Inr e"
    and all: "\<And>ks. range_order (valuesToName e) ks \<Longrightarrow>
              \<exists>vs. Values ks (Some e) = Inr vs \<and> set vs = fst ` set [(3 :: uint32, ''C''), (1, ''A''), (3, ''B'')] \<and>
                    distinct vs \<and> sorted_wrt (\<lambda>a b. unat a < unat b) vs"
    by blast
  have r: "range_order (valuesToName e) [3, 1]"
    using e
    by (auto simp: range_order_def tbl_def RegisterValue_def NewEnum_def assign_def Let_def
          split: if_splits)
  from all [OF r] obtain vs where vs: "Values [3, 1] (Some e) = Inr vs" by blast
  have "Values [3, 1] (Some e) = Inr [1, 3]"
    by (simp add: Values_def Less_def)
  with e r show ?thesis by blast
qed

section \<open>Looking a name up\<close>

lemma map_of_rev_in: "map_of (rev xs) k = Some y \<Longrightarrow> (k, y) \<in> set xs"
  using map_of_SomeD by fastforce

lemma Value_tbl:
  "Value (Some e) s =
     (case tbl (nameToValue e) s of
        Some v \<Rightarrow> (v, True)
      | None \<Rightarrow> (case tbl (canonicalNamesToValue e) s of
                   Some v \<Rightarrow> (v, True)
                 | None \<Rightarrow> (0, False)))"
  by (simp add: Value_def index_ok_tbl split: option.splits)

text \<open>
  Claim C3 says that a value registered under a name is what \<^verbatim>\<open>Value\<close> returns for that
  name. Names are keys of maps too, so a later registration of another value under the
  same name takes the name over: after \<^verbatim>\<open>RegisterValue(1, "A")\<close> and
  \<^verbatim>\<open>RegisterValue(2, "A")\<close>, \<^verbatim>\<open>Value("A")\<close> is 2, although 1 is registered under "A".
\<close>

theorem C3_value_accepts_both_names_counterexample:
  "value_after kmiputil_NormalizeName [(1, ''A''), (2, ''A'')] ''A'' = Inr (2, True) \<and>
   value_after kmiputil_NormalizeName [(1, ''A''), (2, ''A'')] ''A'' \<noteq> Inr (1, True)"
  by (simp add: value_after_def RegisterValue_def NewEnum_def assign_def Let_def
        NormalizeName_def kmiputil_NormalizeName_def word_char_def Value_def index_ok_def)

text \<open>
  Claim C3, amended. An Enum starts as \<^verbatim>\<open>NewEnum()\<close> or \<^verbatim>\<open>NewBitmask()\<close> and receives
  any sequence of \<^verbatim>\<open>RegisterValue\<close> calls. For a value \<open>v\<close> registered under a name \<open>n\<close>
  such that no other value is registered under a name whose normalized form is
  \<^verbatim>\<open>NormalizeName(n)\<close> or \<open>n\<close> itself, \<^verbatim>\<open>Value\<close> returns \<open>(v, true)\<close> for \<open>n\<close> and for
  \<^verbatim>\<open>NormalizeName(n)\<close>. For a string that is neither a registered name nor the normalized
  form of one, it returns \<open>(0, false)\<close>.
\<close>

theorem C3_value_accepts_both_names:
  assumes "e0 = NewEnum \<or> e0 = NewBitmask"
  shows "\<exists>e. register_calls norm regs e0 = Inr e \<and>
     (\<forall>(v, n) \<in> set regs.
        (\<forall>(v', n') \<in> set regs. v' \<noteq> v \<longrightarrow> norm n' \<noteq> norm n \<and> norm n' \<noteq> n) \<longrightarrow>
          Value (Some e) n = (v, True) \<and>
          Value (Some e) (NormalizeName norm n) = (v, True)) \<and>
     (\<forall>s. s \<notin> snd ` set regs \<and> s \<notin> norm ` snd ` set regs \<longrightarrow>
          Value (Some e) s = (0, False))"
proof -
  from fresh_enum_calls [OF assms, of norm regs]
  obtain e where e: "register_calls norm regs e0 = Inr e"
    and nv: "tbl (nameToValue e) = map_of (rev (map (\<lambda>(v, n). (norm n, v)) regs))"
    and cv: "tbl (canonicalNamesToValue e) = map_of (rev (map (\<lambda>(v, n). (n, v)) regs))"
    by blast
  have nv_in: "\<exists>n'. (y, n') \<in> set regs \<and> norm n' = k" if "tbl (nameToValue e) k = Some y" for k y
    using map_of_rev_in [OF that [unfolded nv]] by auto
  have cv_in: "(y, k) \<in> set regs" if "tbl (canonicalNamesToValue e) k = Some y" for k y
    using map_of_rev_in [OF that [unfolded cv]] by auto
  have nv_dom: "\<exists>y. tbl (nameToValue e) (norm n) = Some y" if "(v, n) \<in> set regs" for v n
  proof -
    from that have "(norm n, v) \<in> set (map (\<lambda>(v, n). (norm n, v)) regs)" by force
    then show ?thesis unfolding nv by (rule map_of_rev_dom)
  qed
  have cv_dom: "\<exists>y. tbl (canonicalNamesToValue e) n = Some y" if "(v, n) \<in> set regs" for v n
  proof -
    from that have "(n, v) \<in> set (map (\<lambda>(v, n). (n, v)) regs)" by force
    then show ?thesis unfolding cv by (rule map_of_rev_dom)
  qed
  have known: "\<forall>(v, n) \<in> set regs.
        (\<forall>(v', n') \<in> set regs. v' \<noteq> v \<longrightarrow> norm n' \<noteq> norm n \<and> norm n' \<noteq> n) \<longrightarrow>
          Value (Some e) n = (v, True) \<and>
          Value (Some e) (NormalizeName norm n) = (v, True)"
  proof (intro ballI, clarify)
    fix v n
    assume reg: "(v, n) \<in> set regs"
      and only: "\<forall>(v', n') \<in> set regs. v' \<noteq> v \<longrightarrow> norm n' \<noteq> norm n \<and> norm n' \<noteq> n"
    have a: "y = v" if "tbl (nameToValue e) n = Some y" for y
      using nv_in [OF that] only by auto
    have b: "y = v" if "tbl (canonicalNamesToValue e) n = Some y" for y
      using cv_in [OF that] only by auto
    have c: "y = v" if "tbl (nameToValue e) (norm n) = Some y" for y
      using nv_in [OF that] only by auto
    have "Value (Some e) n = (v, True)"
      using a b cv_dom [OF reg] by (auto simp: Value_tbl split: option.splits)
    moreover have "Value (Some e) (NormalizeName norm n) = (v, True)"
      using c nv_dom [OF reg] by (auto simp: Value_tbl NormalizeName_def split: option.splits)
    ultimately show "Value (Some e) n = (v, True) \<and>
          Value (Some e) (NormalizeName norm n) = (v, True)" ..
  qed
  have unknown: "\<forall>s. s \<notin> snd ` set regs \<and> s \<notin> norm ` snd ` set regs \<longrightarrow>
          Value (Some e) s = (0, False)"
  proof (intro allI impI)
    fix s assume s: "s \<notin> snd ` set regs \<and> s \<notin> norm ` snd ` set regs"
    have "tbl (nameToValue e) s = None"
    proof (cases "tbl (nameToValue e) s")
      case (Some y)
      from nv_in [OF this] s show ?thesis by force
    qed simp
    moreover have "tbl (canonicalNamesToValue e) s = None"
    proof (cases "tbl (canonicalNamesToValue e) s")
      case (Some y)
      from cv_in [OF this] s show ?thesis by force
    qed simp
    ultimately show "Value (Some e) s = (0, False)"
      by (simp add: Value_tbl)
  qed
  show ?thesis
    by (rule exI [of _ e]) (intro conjI e known unknown)
qed


theorem C3_value_accepts_both_names_witness:
  "\<exists>e. register_calls kmiputil_NormalizeName [(1, ''Key Block''), (2, ''Key Value'')] NewEnum = Inr e \<and>
       Value (Some e) ''Key Block'' = (1, True) \<and>
       Value (Some e) ''KeyBlock'' = (1, True) \<and>
       Value (Some e) ''Nope'' = (0, False)"
proof -
  let ?regs = "[(1 :: uint32, ''Key Block''), (2, ''Key Value'')]"
  have start: "NewEnum = NewEnum \<or> NewEnum = NewBitmask" by simp
  have n1: "kmiputil_NormalizeName ''Key Block'' = ''KeyBlock''"
    by (simp add: kmiputil_NormalizeName_def word_char_def)
  have n2: "kmiputil_NormalizeName ''Key Value'' = ''KeyValue''"
    by (simp add: kmiputil_NormalizeName_def word_char_def)
  from C3_value_accepts_both_names [OF start, of kmiputil_NormalizeName ?regs]
  obtain e where e: "register_calls kmiputil_NormalizeName ?regs NewEnum = Inr e"
    and known: "\<forall>(v, n) \<in> set ?regs.
        (\<forall>(v', n') \<in> set ?regs. v' \<noteq> v \<longrightarrow>
            kmiputil_NormalizeName n' \<noteq> kmiputil_NormalizeName n \<and>
            kmiputil_NormalizeName n' \<noteq> n) \<longrightarrow>
          Value (Some e) n = (v, True) \<and>
          Value (Some e) (NormalizeName kmiputil_NormalizeName n) = (v, True)"
    and unknown: "\<forall>s. s \<notin> snd ` set ?regs \<and> s \<notin> kmiputil_NormalizeName ` snd ` set ?regs \<longrightarrow>
          Value (Some e) s = (0, False)"
    by blast
  from known have "Value (Some e) ''Key Block'' = (1, True) \<and>
       Value (Some e) ''KeyBlock'' = (1, True)"
    by (simp add: n1 n2 NormalizeName_def)
  moreover from unknown have "Value (Some e) ''Nope'' = (0, False)"
    by (simp add: n1 n2)
  ultimately show ?thesis using e by blast
qed

section \<open>Bitmask or enum\<close>

lemma RegisterTag_effect:
  "enum_wf (tags r) \<Longrightarrow> \<exists>e'. RegisterTag norm t n r = Inr (r\<lparr>tags := e'\<rparr>) \<and> enum_wf e'"
  using RegisterValue_effect [of "tags r" norm "ucast t" n]
  by (auto simp: RegisterTag_def)

lemma RegisterType_effect:
  "enum_wf (types r) \<Longrightarrow> \<exists>e'. RegisterType norm t n r = Inr (r\<lparr>types := e'\<rparr>) \<and> enum_wf e'"
  using RegisterValue_effect [of "types r" norm "ucast t" n]
  by (auto simp: RegisterType_def)

lemma exec_wf: "state_wf s \<Longrightarrow> \<exists>s'. exec norm c s = Inr s' \<and> state_wf s'"
proof (cases s)
  case (Pair h r)
  assume wf: "state_wf s"
  show ?thesis
  proof (cases c)
    case (Call_RegisterTag t n)
    from wf Pair have "enum_wf (tags r)" by (simp add: state_wf_def)
    from RegisterTag_effect [OF this, of norm t n] wf show ?thesis
      by (auto simp: Pair Call_RegisterTag state_wf_def)
  next
    case (Call_RegisterType t n)
    from wf Pair have "enum_wf (types r)" by (simp add: state_wf_def)
    from RegisterType_effect [OF this, of norm t n] wf show ?thesis
      by (auto simp: Pair Call_RegisterType state_wf_def)
  next
    case (Call_RegisterEnum t d)
    from wf show ?thesis
      by (simp add: Pair Call_RegisterEnum RegisterEnum_effect state_wf_def)
  next
    case (Call_RegisterValue a v n)
    from wf Pair have "enum_wf (h a)" by (simp add: state_wf_def)
    from RegisterValue_effect [OF this, of norm v n] wf show ?thesis
      by (auto simp: Pair Call_RegisterValue state_wf_def)
  qed
qed

lemma run_wf: "state_wf s \<Longrightarrow> \<exists>s'. run norm cs s = Inr s' \<and> state_wf s'"
proof (induction cs arbitrary: s)
  case Nil
  then show ?case by simp
next
  case (Cons c cs)
  from exec_wf [OF Cons.prems, of norm c]
  obtain s1 where s1: "exec norm c s = Inr s1" "state_wf s1" by blast
  from Cons.IH [OF s1(2)] s1(1) show ?case by simp
qed

lemma classification:
  "\<not> (IsBitmask h r t \<and> IsEnum h r t) \<and>
   ((IsBitmask h r t \<or> IsEnum h r t) \<longleftrightarrow> (\<exists>m. tbl (enums r) t = Some m \<and> m \<noteq> NilEnumMap))"
  by (auto simp: IsBitmask_def IsEnum_def EnumForTag_tbl split: option.splits EnumMap.splits)

text \<open>
  Claim C10. After any sequence of \<^verbatim>\<open>RegisterTag\<close>, \<^verbatim>\<open>RegisterType\<close>,
  \<^verbatim>\<open>RegisterEnum\<close> and \<^verbatim>\<open>RegisterValue\<close> calls, from any Registry and any store of
  Enums, and for every tag: \<^verbatim>\<open>IsBitmask\<close> and \<^verbatim>\<open>IsEnum\<close> are not both true, and one of
  them is true exactly when the \<^verbatim>\<open>enums\<close> map holds a non-nil EnumMap for the tag. From
  a state whose Enums a program can hold, no call of the sequence panics.
\<close>

theorem C10_bitmask_xor_enum:
  "(\<forall>h r. run norm cs s0 = Inr (h, r) \<longrightarrow>
      (\<forall>t. \<not> (IsBitmask h r t \<and> IsEnum h r t) \<and>
           ((IsBitmask h r t \<or> IsEnum h r t) \<longleftrightarrow>
            (\<exists>m. tbl (enums r) t = Some m \<and> m \<noteq> NilEnumMap)))) \<and>
   (state_wf s0 \<longrightarrow> (\<exists>s. run norm cs s0 = Inr s))"
  using classification run_wf [of s0 norm cs] by blast


theorem C10_bitmask_xor_enum_witness:
  "state_wf (\<lambda>a. if a = 0 then NewBitmask else NewEnum, zero_Registry) \<and>
   (\<exists>h r. run kmiputil_NormalizeName
       [Call_RegisterEnum 0x42002C (EnumPtr (Some 0)),
        Call_RegisterValue 0 1 ''Sign'',
        Call_RegisterEnum 0x420028 (EnumPtr (Some 1)),
        Call_RegisterTag 0x42002C ''Cryptographic Usage Mask'']
       (\<lambda>a. if a = 0 then NewBitmask else NewEnum, zero_Registry) = Inr (h, r) \<and>
     IsBitmask h r 0x42002C \<and> \<not> IsEnum h r 0x42002C \<and>
     IsEnum h r 0x420028 \<and> \<not> IsBitmask h r 0x420028 \<and>
     \<not> IsBitmask h r 0x420001 \<and> \<not> IsEnum h r 0x420001)"
proof -
  let ?s0 = "(\<lambda>a :: nat. if a = 0 then NewBitmask else NewEnum, zero_Registry)"
  let ?cs = "[Call_RegisterEnum 0x42002C (EnumPtr (Some 0)),
        Call_RegisterValue 0 1 ''Sign'',
        Call_RegisterEnum 0x420028 (EnumPtr (Some 1)),
        Call_RegisterTag 0x42002C ''Cryptographic Usage Mask'']"
  have wf: "state_wf ?s0"
    by (simp add: state_wf_def enum_wf_def NewBitmask_def NewEnum_def zero_Registry_def)
  from C10_bitmask_xor_enum [of kmiputil_NormalizeName ?cs ?s0] wf
  obtain h r where run: "run kmiputil_NormalizeName ?cs ?s0 = Inr (h, r)"
    and cls: "\<And>t. \<not> (IsBitmask h r t \<and> IsEnum h r t) \<and>
           ((IsBitmask h r t \<or> IsEnum h r t) \<longleftrightarrow>
            (\<exists>m. tbl (enums r) t = Some m \<and> m \<noteq> NilEnumMap))"
    by (metis surj_pair)
  from run have en: "enums r = Some [0x42002C \<mapsto> EnumPtr (Some 0), 0x420028 \<mapsto> EnumPtr (Some 1)]"
    and h0: "bitMask (h 0)" and h1: "\<not> bitMask (h 1)"
    by (auto simp: RegisterEnum_effect RegisterValue_def RegisterTag_def assign_def Let_def
          NewBitmask_def NewEnum_def zero_Registry_def tbl_def)
  have a: "IsBitmask h r 0x42002C"
    by (simp add: IsBitmask_def EnumForTag_tbl en tbl_def Bitmask_def h0)
  have b: "IsEnum h r 0x420028"
    using h1 by (simp add: IsEnum_def EnumForTag_tbl en tbl_def Bitmask_def)
  have c: "\<not> (\<exists>m. tbl (enums r) 0x420001 = Some m \<and> m \<noteq> NilEnumMap)"
    by (simp add: en tbl_def)
  from a b c cls [of "0x42002C"] cls [of "0x420028"] cls [of "0x420001"] wf run
  show ?thesis by blast
qed

section \<open>Hexadecimal text\<close>

lemma hex_digit_less: "hex_digit c = Some d \<Longrightarrow> d < 16"
  by (auto simp: hex_digit_def Let_def split: if_splits)

lemma hex_digit_hex_char: "d < 16 \<Longrightarrow> hex_digit (hex_char d) = Some d"
proof -
  assume "d < 16"
  then have "d = 0 \<or> d = 1 \<or> d = 2 \<or> d = 3 \<or> d = 4 \<or> d = 5 \<or> d = 6 \<or> d = 7 \<or>
      d = 8 \<or> d = 9 \<or> d = 10 \<or> d = 11 \<or> d = 12 \<or> d = 13 \<or> d = 14 \<or> d = 15"
    by arith
  then show ?thesis
    by (elim disjE) (simp_all add: hex_char_def hex_digit_def)
qed

lemma six: "(6 :: nat) = Suc (Suc (Suc (Suc (Suc (Suc 0)))))"
  by simp

lemma hex_value_append:
  "hex_value acc (xs @ ys) =
     (case hex_value acc xs of None \<Rightarrow> None | Some a \<Rightarrow> hex_value a ys)"
  by (induction xs arbitrary: acc) (simp_all split: option.splits)

lemma length_hex_digits: "length (hex_digits k n) = k"
  by (induction k arbitrary: n) simp_all

lemma hex_digits_are_hex: "c \<in> set (hex_digits k n) \<Longrightarrow> hex_digit c \<noteq> None"
  by (induction k arbitrary: n) (auto simp: hex_digit_hex_char)

lemma hex_value_hex_digits:
  "hex_value acc (hex_digits k n) = Some (acc * 16 ^ k + n mod 16 ^ k)"
proof (induction k arbitrary: n)
  case 0
  then show ?case by simp
next
  case (Suc k)
  have "n mod (16 * 16 ^ k) = 16 * (n div 16 mod 16 ^ k) + n mod 16"
    by (rule mod_mult2_eq)
  then show ?case
    by (simp add: hex_value_append Suc.IH hex_digit_hex_char algebra_simps)
qed

lemma hex_value_None_iff:
  "hex_value acc ds = None \<longleftrightarrow> (\<exists>c \<in> set ds. hex_digit c = None)"
  by (induction ds arbitrary: acc) (auto split: option.splits)

lemma hex_value_bound:
  "hex_value acc ds = Some n \<Longrightarrow> n < (acc + 1) * 16 ^ length ds"
proof (induction ds arbitrary: acc)
  case Nil
  then show ?case by simp
next
  case (Cons c ds)
  from Cons.prems obtain d where d: "hex_digit c = Some d"
    and rest: "hex_value (16 * acc + d) ds = Some n"
    by (auto split: option.splits)
  from Cons.IH [OF rest] have "n < (16 * acc + d + 1) * 16 ^ length ds" .
  also have "\<dots> \<le> (16 * acc + 16) * 16 ^ length ds"
    using hex_digit_less [OF d] by (intro mult_right_mono) simp_all
  finally show ?case by (simp add: algebra_simps)
qed

lemma unat_tag: "unat (ucast (t :: Tag) :: uint32) = unat t"
proof -
  have "unat t < 2 ^ 24"
    using unsigned_less [of t] by simp
  then have "unat t < 2 ^ 32" by simp
  then show ?thesis
    by (simp add: unsigned_ucast_eq take_bit_nat_eq_self)
qed

lemma tag_of_uint32: "ucast (ucast (t :: Tag) :: uint32) = t"
  by (rule ucast_up_ucast_id) (simp add: is_up)

section \<open>FormatTag\<close>

text \<open>
  Claim C5. For every tag \<open>t\<close>, \<^verbatim>\<open>Registry.FormatTag(t)\<close> is the canonical name registered
  for \<open>t\<close> when there is one, and otherwise "0x" followed by six characters that are hex
  digits and that write the number \<open>t\<close>.
\<close>

theorem C5_format_tag:
  "Registry_FormatTag r t =
     (case tbl (valuesToCanonicalName (tags r)) (ucast t) of
        Some c \<Rightarrow> c
      | None \<Rightarrow> ''0x'' @ hex_digits 6 (unat t)) \<and>
   length (hex_digits 6 (unat t)) = 6 \<and>
   (\<forall>c \<in> set (hex_digits 6 (unat t)). hex_digit c \<noteq> None) \<and>
   hex_value 0 (hex_digits 6 (unat t)) = Some (unat t)"
proof -
  have "unat t < 2 ^ 24"
    using unsigned_less [of t] by simp
  then have "unat t mod 16 ^ 6 = unat t" by simp
  then have v: "hex_value 0 (hex_digits 6 (unat t)) = Some (unat t)"
    by (simp add: hex_value_hex_digits)
  have f: "Registry_FormatTag r t =
     (case tbl (valuesToCanonicalName (tags r)) (ucast t) of
        Some c \<Rightarrow> c
      | None \<Rightarrow> ''0x'' @ hex_digits 6 (unat t))"
    by (simp add: Registry_FormatTag_def FormatTag_def CanonicalName_def index_ok_tbl unat_tag
          split: option.splits)
  from f v show ?thesis
    using hex_digits_are_hex length_hex_digits by blast
qed

theorem C5_format_tag_witness:
  "\<exists>r. register_tags kmiputil_NormalizeName [(0x420028, ''Cryptographic Algorithm'')]
         zero_Registry = Inr r \<and>
       Registry_FormatTag r 0x420028 = ''Cryptographic Algorithm'' \<and>
       Registry_FormatTag r 0x42002C = ''0x42002c'' \<and>
       (\<forall>c \<in> set ''42002c''. hex_digit c \<noteq> None)"
proof -
  obtain r where r: "register_tags kmiputil_NormalizeName [(0x420028, ''Cryptographic Algorithm'')]
         zero_Registry = Inr r"
    and c: "valuesToCanonicalName (tags r) = Some [0x420028 \<mapsto> ''Cryptographic Algorithm'']"
    by (simp add: RegisterTag_def RegisterValue_def zero_Registry_def NewEnum_def assign_def
          Let_def)
  have "hex_digits 6 4325420 = ''42002c''"
    unfolding six by (simp add: hex_char_def)
  then have d: "hex_digits 6 (unat (0x42002C :: Tag)) = ''42002c''"
    by simp
  from C5_format_tag [of r "0x420028"] have a: "Registry_FormatTag r 0x420028 = ''Cryptographic Algorithm''"
    by (simp add: c tbl_def)
  from C5_format_tag [of r "0x42002C"] have b: "Registry_FormatTag r 0x42002C = ''0x42002c'' \<and>
       (\<forall>c \<in> set ''42002c''. hex_digit c \<noteq> None)"
    unfolding d by (simp add: c tbl_def)
  from r a b show ?thesis by blast
qed

section \<open>ParseTag\<close>

text \<open>
  Claim C4. For every string \<open>s\<close>, \<^verbatim>\<open>Registry.ParseTag(s)\<close> fails with the malformed-hex
  error exactly when \<open>s\<close> begins with "0x" and either has not 8 characters or has a
  character after the "0x" that is not a hex digit. For every \<open>s\<close> that does not begin
  with "0x" and is neither a normalized nor a canonical registered tag name, it returns
  \<^verbatim>\<open>TagNone\<close> and no error.
\<close>

theorem C4_parse_tag_errors:
  "(Registry_ParseTag r s = Inl ErrInvalidHexString \<longleftrightarrow>
      has_0x s \<and> (length s \<noteq> 8 \<or> (\<exists>c \<in> set (drop 2 s). hex_digit c = None))) \<and>
   (\<not> has_0x s \<and> s \<notin> dom (tbl (nameToValue (tags r))) \<and>
    s \<notin> dom (tbl (canonicalNamesToValue (tags r))) \<longrightarrow>
      Registry_ParseTag r s = Inr TagNone)"
proof -
  have len: "has_0x s \<Longrightarrow> length (drop 2 s) = 6 \<longleftrightarrow> length s = 8"
    by (cases s; cases "tl s") (auto simp: has_0x_def)
  have a: "Registry_ParseTag r s = Inl ErrInvalidHexString \<longleftrightarrow>
      has_0x s \<and> (length s \<noteq> 8 \<or> (\<exists>c \<in> set (drop 2 s). hex_digit c = None))"
  proof (cases "has_0x s")
    case True
    have "Registry_ParseTag r s = Inl ErrInvalidHexString \<longleftrightarrow> hex_form 6 s = None"
      using True by (simp add: Registry_ParseTag_def ParseTag_def split: option.splits)
    also have "\<dots> \<longleftrightarrow> length (drop 2 s) \<noteq> 6 \<or> hex_value 0 (drop 2 s) = None"
      using True by (simp add: hex_form_def)
    also have "\<dots> \<longleftrightarrow> length s \<noteq> 8 \<or> (\<exists>c \<in> set (drop 2 s). hex_digit c = None)"
      unfolding len [OF True] hex_value_None_iff ..
    finally show ?thesis using True by simp
  next
    case False
    then show ?thesis
      by (auto simp: Registry_ParseTag_def ParseTag_def split: option.splits prod.splits)
  qed
  have b: "\<not> has_0x s \<and> s \<notin> dom (tbl (nameToValue (tags r))) \<and>
    s \<notin> dom (tbl (canonicalNamesToValue (tags r))) \<longrightarrow>
      Registry_ParseTag r s = Inr TagNone"
    by (auto simp: Registry_ParseTag_def ParseTag_def Value_tbl split: option.splits)
  from a b show ?thesis ..
qed

theorem C4_parse_tag_errors_witness:
  "Registry_ParseTag zero_Registry ''0x4200'' = Inl ErrInvalidHexString \<and>
   Registry_ParseTag zero_Registry ''0x42zz28'' = Inl ErrInvalidHexString \<and>
   Registry_ParseTag zero_Registry ''0x420028'' \<noteq> Inl ErrInvalidHexString \<and>
   Registry_ParseTag zero_Registry ''Bogus'' = Inr TagNone"
proof -
  have a: "Registry_ParseTag zero_Registry ''0x4200'' = Inl ErrInvalidHexString"
    using C4_parse_tag_errors [of zero_Registry "''0x4200''"] by (simp add: has_0x_def)
  have b: "Registry_ParseTag zero_Registry ''0x42zz28'' = Inl ErrInvalidHexString"
    using C4_parse_tag_errors [of zero_Registry "''0x42zz28''"]
    by (simp add: has_0x_def hex_digit_def)
  have c: "Registry_ParseTag zero_Registry ''0x420028'' \<noteq> Inl ErrInvalidHexString"
    using C4_parse_tag_errors [of zero_Registry "''0x420028''"]
    by (simp add: has_0x_def hex_digit_def)
  have d: "Registry_ParseTag zero_Registry ''Bogus'' = Inr TagNone"
    using C4_parse_tag_errors [of zero_Registry "''Bogus''"]
    by (simp add: has_0x_def zero_Registry_def NewEnum_def tbl_def)
  from a b c d show ?thesis by blast
qed

section \<open>Formatting a tag and parsing it back\<close>

lemma register_tags_calls:
  "register_tags norm regs r =
     (case register_calls norm (map (\<lambda>(t, n). (ucast t, n)) regs) (tags r) of
        Inl x \<Rightarrow> Inl x
      | Inr e \<Rightarrow> Inr (r\<lparr>tags := e\<rparr>))"
proof (induction regs arbitrary: r)
  case Nil
  then show ?case by simp
next
  case (Cons p regs)
  obtain t n where p: "p = (t, n)" by (cases p)
  show ?case
    by (simp add: p RegisterTag_def Cons.IH split: sum.splits)
qed

lemma tag_ucast_inj: "(ucast (t :: Tag) :: uint32) = ucast t' \<Longrightarrow> t = t'"
  by (metis tag_of_uint32)

text \<open>
  Claim C1 says that every registered tag is parsed back from its formatted name. Tag names
  are keys of the same maps as every Enum's, so two tags registered under one name share
  it and the later one owns it: after \<^verbatim>\<open>RegisterTag(1, "A")\<close> and
  \<^verbatim>\<open>RegisterTag(2, "A")\<close>, tag 1 is formatted as "A" and "A" is parsed as tag 2.
\<close>

theorem C1_parse_format_tag_counterexample:
  "parse_format_after kmiputil_NormalizeName [(1, ''A''), (2, ''A'')] 1 = Inr 2"
  by (simp add: parse_format_after_def RegisterTag_def RegisterValue_def zero_Registry_def
        NewEnum_def assign_def Let_def NormalizeName_def kmiputil_NormalizeName_def
        word_char_def Registry_ParseTag_def Registry_FormatTag_def ParseTag_def FormatTag_def
        CanonicalName_def Value_def index_ok_def has_0x_def)

text \<open>
  Claim C1, amended. A Registry starts as the zero Registry and receives any sequence of
  \<^verbatim>\<open>RegisterTag\<close> calls. For every registered tag \<open>t\<close> whose formatted name does not
  begin with "0x" and is neither the canonical nor the normalized name of a registration of
  another tag, \<^verbatim>\<open>ParseTag(FormatTag(t))\<close> returns \<open>t\<close>. And on every Registry, for every
  string "0x" followed by exactly 6 hex digits, \<^verbatim>\<open>ParseTag\<close> returns the tag whose
  number the digits write, registered or not.
\<close>

theorem C1_parse_format_tag:
  "\<exists>r. register_tags norm regs zero_Registry = Inr r \<and>
     (\<forall>t \<in> fst ` set regs.
        \<not> has_0x (Registry_FormatTag r t) \<and>
        (\<forall>(t', n') \<in> set regs. t' \<noteq> t \<longrightarrow>
            n' \<noteq> Registry_FormatTag r t \<and> norm n' \<noteq> Registry_FormatTag r t) \<longrightarrow>
        Registry_ParseTag r (Registry_FormatTag r t) = Inr t) \<and>
     (\<forall>r' ds. length ds = 6 \<and> (\<forall>c \<in> set ds. hex_digit c \<noteq> None) \<longrightarrow>
        (\<exists>t. Registry_ParseTag r' (''0x'' @ ds) = Inr t \<and> hex_value 0 ds = Some (unat t)))"
proof -
  let ?regs = "map (\<lambda>(t :: Tag, n). (ucast t :: uint32, n)) regs"
  have start: "tags zero_Registry = NewEnum \<or> tags zero_Registry = NewBitmask"
    by (simp add: zero_Registry_def)
  from fresh_enum_calls [OF start, of norm ?regs]
  obtain e where e: "register_calls norm ?regs (tags zero_Registry) = Inr e"
    and nv: "tbl (nameToValue e) = map_of (rev (map (\<lambda>(v, n). (norm n, v)) ?regs))"
    and cn: "tbl (valuesToCanonicalName e) = map_of (rev ?regs)"
    and cv: "tbl (canonicalNamesToValue e) = map_of (rev (map (\<lambda>(v, n). (n, v)) ?regs))"
    by blast
  define r where "r = zero_Registry\<lparr>tags := e\<rparr>"
  have r: "register_tags norm regs zero_Registry = Inr r"
    by (simp add: register_tags_calls e r_def)
  have tr: "tags r = e" by (simp add: r_def)
  have nv_in: "\<exists>t' n'. y = ucast t' \<and> (t', n') \<in> set regs \<and> norm n' = k"
    if "tbl (nameToValue e) k = Some y" for k y
    using map_of_rev_in [OF that [unfolded nv]] by auto
  have cn_in: "\<exists>t'. v = ucast t' \<and> (t', k) \<in> set regs"
    if "tbl (valuesToCanonicalName e) v = Some k" for k v
    using map_of_rev_in [OF that [unfolded cn]] by auto
  have cv_in: "\<exists>t'. y = ucast t' \<and> (t', k) \<in> set regs"
    if "tbl (canonicalNamesToValue e) k = Some y" for k y
    using map_of_rev_in [OF that [unfolded cv]] by auto
  have cn_dom: "\<exists>k. tbl (valuesToCanonicalName e) (ucast t) = Some k" if "(t, n) \<in> set regs" for t n
  proof -
    from that have "(ucast t, n) \<in> set ?regs" by force
    then show ?thesis unfolding cn by (rule map_of_rev_dom)
  qed
  have cv_dom: "\<exists>y. tbl (canonicalNamesToValue e) n = Some y" if "(t, n) \<in> set regs" for t n
  proof -
    from that have "(n, ucast t) \<in> set (map (\<lambda>(v, n). (n, v)) ?regs)" by force
    then show ?thesis unfolding cv by (rule map_of_rev_dom)
  qed
  have names: "\<forall>t \<in> fst ` set regs.
        \<not> has_0x (Registry_FormatTag r t) \<and>
        (\<forall>(t', n') \<in> set regs. t' \<noteq> t \<longrightarrow>
            n' \<noteq> Registry_FormatTag r t \<and> norm n' \<noteq> Registry_FormatTag r t) \<longrightarrow>
        Registry_ParseTag r (Registry_FormatTag r t) = Inr t"
  proof (intro ballI impI, elim conjE)
    fix t
    assume reg: "t \<in> fst ` set regs"
      and nohex: "\<not> has_0x (Registry_FormatTag r t)"
      and only: "\<forall>(t', n') \<in> set regs. t' \<noteq> t \<longrightarrow>
            n' \<noteq> Registry_FormatTag r t \<and> norm n' \<noteq> Registry_FormatTag r t"
    from reg obtain n0 where "(t, n0) \<in> set regs" by auto
    from cn_dom [OF this] obtain c where c: "tbl (valuesToCanonicalName e) (ucast t) = Some c"
      by blast
    have fmt: "Registry_FormatTag r t = c"
      by (simp add: Registry_FormatTag_def FormatTag_def CanonicalName_def index_ok_tbl tr c)
    from cn_in [OF c] have tc: "(t, c) \<in> set regs"
      using tag_ucast_inj by blast
    have a: "y = ucast t" if "tbl (nameToValue e) c = Some y" for y
      using nv_in [OF that] only unfolding fmt by auto
    have b: "y = ucast t" if "tbl (canonicalNamesToValue e) c = Some y" for y
      using cv_in [OF that] only unfolding fmt by auto
    have "Value (Some e) c = (ucast t, True)"
      using a b cv_dom [OF tc] by (auto simp: Value_tbl split: option.splits)
    then show "Registry_ParseTag r (Registry_FormatTag r t) = Inr t"
      using nohex unfolding fmt
      by (simp add: Registry_ParseTag_def ParseTag_def tr tag_of_uint32)
  qed
  have hex: "\<forall>r' ds. length ds = 6 \<and> (\<forall>c \<in> set ds. hex_digit c \<noteq> None) \<longrightarrow>
        (\<exists>t. Registry_ParseTag r' (''0x'' @ ds) = Inr t \<and> hex_value 0 ds = Some (unat t))"
  proof (intro allI impI, elim conjE)
    fix r' :: Registry and ds :: string
    assume len: "length ds = 6" and digits: "\<forall>c \<in> set ds. hex_digit c \<noteq> None"
    from digits have "hex_value 0 ds \<noteq> None"
      unfolding hex_value_None_iff by simp
    then obtain n where n: "hex_value 0 ds = Some n" by blast
    from hex_value_bound [OF n] len have "n < 2 ^ 24" by simp
    then have u: "unat (of_nat n :: Tag) = n"
      by (simp add: unsigned_of_nat take_bit_nat_eq_self)
    have "Registry_ParseTag r' (''0x'' @ ds) = Inr (of_nat n)"
      by (simp add: Registry_ParseTag_def ParseTag_def has_0x_def hex_form_def len n)
    with n u show "\<exists>t. Registry_ParseTag r' (''0x'' @ ds) = Inr t \<and> hex_value 0 ds = Some (unat t)"
      by simp
  qed
  show ?thesis
    by (rule exI [of _ r]) (intro conjI r names hex)
qed


theorem C1_parse_format_tag_witness:
  "\<exists>r. register_tags kmiputil_NormalizeName
         [(0x420028, ''Cryptographic Algorithm''), (0x42002C, ''Cryptographic Usage Mask'')]
         zero_Registry = Inr r \<and>
       Registry_FormatTag r 0x420028 = ''Cryptographic Algorithm'' \<and>
       Registry_ParseTag r ''Cryptographic Algorithm'' = Inr 0x420028 \<and>
       Registry_ParseTag r ''0x42002c'' = Inr 0x42002C"
proof -
  let ?regs = "[(0x420028 :: Tag, ''Cryptographic Algorithm''),
                (0x42002C, ''Cryptographic Usage Mask'')]"
  from C1_parse_format_tag [of kmiputil_NormalizeName ?regs]
  obtain r where r: "register_tags kmiputil_NormalizeName ?regs zero_Registry = Inr r"
    and names: "\<forall>t \<in> fst ` set ?regs.
        \<not> has_0x (Registry_FormatTag r t) \<and>
        (\<forall>(t', n') \<in> set ?regs. t' \<noteq> t \<longrightarrow>
            n' \<noteq> Registry_FormatTag r t \<and>
            kmiputil_NormalizeName n' \<noteq> Registry_FormatTag r t) \<longrightarrow>
        Registry_ParseTag r (Registry_FormatTag r t) = Inr t"
    and hex: "\<forall>r' ds. length ds = 6 \<and> (\<forall>c \<in> set ds. hex_digit c \<noteq> None) \<longrightarrow>
        (\<exists>t. Registry_ParseTag r' (''0x'' @ ds) = Inr t \<and> hex_value 0 ds = Some (unat t))"
    by blast
  from r have f: "Registry_FormatTag r 0x420028 = ''Cryptographic Algorithm''"
    by (auto simp: RegisterTag_def RegisterValue_def zero_Registry_def NewEnum_def assign_def
          Let_def Registry_FormatTag_def FormatTag_def CanonicalName_def index_ok_def)
  have n: "kmiputil_NormalizeName ''Cryptographic Usage Mask'' = ''CryptographicUsageMask''"
    by (simp add: kmiputil_NormalizeName_def word_char_def)
  from names have p: "Registry_ParseTag r ''Cryptographic Algorithm'' = Inr 0x420028"
    by (simp add: f has_0x_def n)
  have pre: "length ''42002c'' = 6 \<and> (\<forall>c \<in> set ''42002c''. hex_digit c \<noteq> None)"
    by (simp add: hex_digit_def)
  have v: "hex_value 0 ''42002c'' = Some 4325420"
    by (simp add: hex_digit_def)
  from hex [rule_format, of "''42002c''" r, OF pre]
  obtain t where t: "Registry_ParseTag r ''0x42002c'' = Inr t"
    and "unat t = 4325420"
    unfolding v by auto
  then have "unat t = unat (0x42002C :: Tag)" by simp
  then have "t = 0x42002C" by (simp only: word_unat_eq_iff)
  with t have t': "Registry_ParseTag r ''0x42002c'' = Inr 0x42002C" by simp
  show ?thesis
    by (rule exI [of _ r]) (intro conjI r f p t')
qed

section \<open>ParseEnum on a bitmask\<close>

lemma parse_mask_error:
  "parse_mask e cs acc = Inl x \<Longrightarrow>
   x = ErrUnregisteredEnumName \<and> (\<exists>c \<in> set cs. hex_form 8 c = None \<and> \<not> snd (Value e c))"
proof (induction cs arbitrary: acc)
  case Nil
  then show ?case by simp
next
  case (Cons d cs)
  show ?case
  proof (cases "parse_mask_component e d")
    case (Inl y)
    with Cons.prems have "y = x" by simp
    with Inl show ?thesis
      by (auto simp: parse_mask_component_def split: option.splits prod.splits if_splits)
  next
    case (Inr v)
    with Cons.prems have "parse_mask e cs (acc OR v) = Inl x" by simp
    from Cons.IH [OF this] show ?thesis by auto
  qed
qed

lemma parse_mask_unknown:
  "c \<in> set cs \<Longrightarrow> hex_form 8 c = None \<Longrightarrow> \<not> snd (Value e c) \<Longrightarrow>
   parse_mask e cs acc = Inl ErrUnregisteredEnumName"
proof (induction cs arbitrary: acc)
  case Nil
  then show ?case by simp
next
  case (Cons d cs)
  show ?case
  proof (cases "parse_mask_component e d")
    case (Inl x)
    then have "parse_mask e (d # cs) acc = Inl x" by simp
    from parse_mask_error [OF this] this show ?thesis by simp
  next
    case (Inr v)
    with Cons.prems(2,3) have "d \<noteq> c"
      by (auto simp: parse_mask_component_def split: prod.splits)
    with Cons.prems(1) have c: "c \<in> set cs" by simp
    from Cons.IH [OF c Cons.prems(2,3)] Inr show ?thesis by simp
  qed
qed

text \<open>
  Claim C6. For every tag whose registered EnumMap is a bitmask, and every string \<open>s\<close>,
  \<^verbatim>\<open>Registry.ParseEnum(t, s)\<close> fails with \<^verbatim>\<open>ErrUnregisteredEnumName\<close> exactly when
  one of the components of \<open>s\<close> between the "|" separators is not given as hex and is
  neither a normalized nor a canonical registered name of the bitmask.
\<close>

theorem C6_parse_enum_unregistered:
  assumes "IsBitmask h r t" and "EnumForTag r t = EnumPtr (Some a)"
  shows "Registry_ParseEnum enum_form h r t s = Inl ErrUnregisteredEnumName \<longleftrightarrow>
     (\<exists>c \<in> set (split_on CHR ''|'' s).
        hex_form 8 c = None \<and>
        c \<notin> dom (tbl (nameToValue (h a))) \<and>
        c \<notin> dom (tbl (canonicalNamesToValue (h a))))"
proof -
  from assms have b: "Bitmask (Some (h a))"
    by (simp add: IsBitmask_def)
  have p: "Registry_ParseEnum enum_form h r t s =
      parse_mask (Some (h a)) (split_on CHR ''|'' s) 0"
    using b by (simp add: Registry_ParseEnum_def ParseEnum_def assms(2))
  have u: "\<not> snd (Value (Some (h a)) c) \<longleftrightarrow>
      c \<notin> dom (tbl (nameToValue (h a))) \<and> c \<notin> dom (tbl (canonicalNamesToValue (h a)))" for c
    by (auto simp: Value_tbl split: option.splits)
  show ?thesis
    unfolding p u [symmetric]
    using parse_mask_error parse_mask_unknown by blast
qed


theorem C6_parse_enum_unregistered_witness:
  "\<exists>h r. run kmiputil_NormalizeName
         [Call_RegisterValue 0 1 ''Sign'', Call_RegisterValue 0 2 ''Verify'',
          Call_RegisterEnum 0x42002C (EnumPtr (Some 0))]
         (\<lambda>a. NewBitmask, zero_Registry) = Inr (h, r) \<and>
     IsBitmask h r 0x42002C \<and>
     Registry_ParseEnum (\<lambda>s m. Inr 0) h r 0x42002C ''Sign|Bogus'' = Inl ErrUnregisteredEnumName \<and>
     Registry_ParseEnum (\<lambda>s m. Inr 0) h r 0x42002C ''Sign|0x00000004'' \<noteq>
       Inl ErrUnregisteredEnumName \<and>
     Registry_ParseEnum (\<lambda>s m. Inr 0) h r 0x42002C ''Sign|0x00000004'' = Inr 5"
proof -
  let ?cs = "[Call_RegisterValue 0 1 ''Sign'', Call_RegisterValue 0 2 ''Verify'',
          Call_RegisterEnum 0x42002C (EnumPtr (Some 0))]"
  let ?ef = "\<lambda>(s :: string) (m :: Enum option option). Inr 0 :: error + uint32"
  have n: "kmiputil_NormalizeName ''Sign'' = ''Sign''" "kmiputil_NormalizeName ''Verify'' = ''Verify''"
    by (simp_all add: kmiputil_NormalizeName_def word_char_def)
  obtain h r where run: "run kmiputil_NormalizeName ?cs (\<lambda>a. NewBitmask, zero_Registry) = Inr (h, r)"
    and en: "EnumForTag r 0x42002C = EnumPtr (Some 0)"
    and bm: "bitMask (h 0)"
    and nv: "nameToValue (h 0) = Some [''Sign'' \<mapsto> 1, ''Verify'' \<mapsto> 2]"
    and cv: "canonicalNamesToValue (h 0) = Some [''Sign'' \<mapsto> 1, ''Verify'' \<mapsto> 2]"
    by (simp add: RegisterEnum_effect RegisterValue_def assign_def Let_def NewBitmask_def
          zero_Registry_def tbl_def EnumForTag_tbl NormalizeName_def n)
  have ib: "IsBitmask h r 0x42002C"
    by (simp add: IsBitmask_def en Bitmask_def bm)
  have s1: "split_on CHR ''|'' ''Sign|Bogus'' = [''Sign'', ''Bogus'']"
    by simp
  have s2: "split_on CHR ''|'' ''Sign|0x00000004'' = [''Sign'', ''0x00000004'']"
    by simp
  have hf: "hex_form 8 ''Bogus'' = None" "hex_form 8 ''0x00000004'' = Some 4"
    "hex_form 8 ''Sign'' = None"
    by (simp_all add: hex_form_def has_0x_def hex_digit_def)
  have a: "Registry_ParseEnum ?ef h r 0x42002C ''Sign|Bogus'' = Inl ErrUnregisteredEnumName"
    unfolding C6_parse_enum_unregistered [OF ib en] s1
    by (simp add: hf nv cv tbl_def)
  have b: "Registry_ParseEnum ?ef h r 0x42002C ''Sign|0x00000004'' \<noteq> Inl ErrUnregisteredEnumName"
    unfolding C6_parse_enum_unregistered [OF ib en] s2
    by (simp add: hf nv cv tbl_def)
  have c: "Registry_ParseEnum ?ef h r 0x42002C ''Sign|0x00000004'' = Inr 5"
    unfolding Registry_ParseEnum_def ParseEnum_def en s2
    by (simp add: Bitmask_def bm parse_mask_component_def hf Value_def index_ok_def nv cv)
  show ?thesis
    by (intro exI [of _ h] exI [of _ r] conjI run ib a b c)
qed

end
